theory Spec2Isabelle
  imports Main
begin

section \<open>Text\<close>

text \<open>
  A Python \<open>str\<close> is modelled as a \<open>string\<close>; one \<open>char\<close> stands for one code point
  below 256. The character classes are those of Python's \<open>re\<close> module on \<open>str\<close>
  patterns, restricted to that range: \<open>\d\<close> is the ten decimal digits, \<open>[A-Za-z]\<close> the
  ASCII letters, and \<open>\s\<close> the code points for which \<open>str.isspace\<close> holds.
\<close>

definition is_digit :: "char \<Rightarrow> bool" where
  "is_digit c = (c \<in> set ''0123456789'')"

definition is_alpha :: "char \<Rightarrow> bool" where
  "is_alpha c = (c \<in> set ''ABCDEFGHIJKLMNOPQRSTUVWXYZabcdefghijklmnopqrstuvwxyz'')"

definition is_space :: "char \<Rightarrow> bool" where
  "is_space c = (c \<in> set [CHR 0x09, CHR 0x0A, CHR 0x0B, CHR 0x0C, CHR 0x0D,
                           CHR 0x1C, CHR 0x1D, CHR 0x1E, CHR 0x1F, CHR 0x20,
                           CHR 0x85, CHR 0xA0])"

text \<open>\<open>s.startswith(p)\<close> and the substring test \<open>p in s\<close>.\<close>

fun startswith :: "string \<Rightarrow> string \<Rightarrow> bool" where
  "startswith s [] = True"
| "startswith [] (p # ps) = False"
| "startswith (c # cs) (p # ps) = (c = p \<and> startswith cs ps)"

fun contains :: "string \<Rightarrow> string \<Rightarrow> bool" where
  "contains [] p = (p = [])"
| "contains (c # cs) p = (startswith (c # cs) p \<or> contains cs p)"

text \<open>\<open>str(n)\<close> for a Python integer, and \<open>int(s)\<close> for a string of decimal digits.\<close>

definition digit_char :: "nat \<Rightarrow> char" where
  "digit_char n = ''0123456789'' ! (n mod 10)"

fun str_nat :: "nat \<Rightarrow> string" where
  "str_nat n = (if n < 10 then [digit_char n] else str_nat (n div 10) @ [digit_char (n mod 10)])"

declare str_nat.simps [simp del]

definition str :: "int \<Rightarrow> string" where
  "str i = (if i < 0 then CHR ''-'' # str_nat (nat (- i)) else str_nat (nat i))"

definition digit_val :: "char \<Rightarrow> nat" where
  "digit_val c = (case map_of (zip ''0123456789'' [0, 1, 2, 3, 4, 5, 6, 7, 8, 9]) c of
                    Some v \<Rightarrow> v | None \<Rightarrow> 0)"

definition int_of_digits :: "string \<Rightarrow> int" where
  "int_of_digits s = int (foldl (\<lambda>a c. 10 * a + digit_val c) 0 s)"

text \<open>The slice \<open>s[-2:]\<close>: the last two characters, or all of \<open>s\<close> when it is shorter.\<close>

definition last2 :: "string \<Rightarrow> string" where
  "last2 s = drop (length s - 2) s"

text \<open>The format specification \<open>:02d\<close> for a non-negative integer.\<close>

definition fmt_02d :: "int \<Rightarrow> string" where
  "fmt_02d i = (if 0 \<le> i \<and> i < 10 then CHR ''0'' # str i else str i)"

text \<open>\<open>s.lower()\<close> on ASCII text.\<close>

definition lower_char :: "char \<Rightarrow> char" where
  "lower_char c = (case map_of (zip ''ABCDEFGHIJKLMNOPQRSTUVWXYZ''
                                     ''abcdefghijklmnopqrstuvwxyz'') c of
                     Some l \<Rightarrow> l | None \<Rightarrow> c)"

definition lower :: "string \<Rightarrow> string" where
  "lower s = map lower_char s"

section \<open>Dates\<close>

text \<open>
  A \<open>datetime\<close> value, reduced to its calendar date: no output of the program depends on
  the time of day. The library accepts the years 1 to 9999 only and raises \<open>ValueError\<close>
  outside. The exceptions of a run are \<open>ValueError\<close>, the \<open>OSError\<close> of a file that
  cannot be examined, the exception \<open>Document\<close> raises on a file it cannot load and the
  one \<open>doc.save\<close> raises on a file it cannot write; all of them are instances of
  \<open>Exception\<close>.
\<close>

record datetime =
  year :: int
  month :: int
  day :: int

datatype error = ValueError | OSError | LoadError | SaveError

definition isleap :: "int \<Rightarrow> bool" where
  "isleap y = (y mod 4 = 0 \<and> (y mod 100 \<noteq> 0 \<or> y mod 400 = 0))"

definition days_in_month :: "int \<Rightarrow> int \<Rightarrow> int" where
  "days_in_month y m =
     (if m = 2 then (if isleap y then 29 else 28)
      else if m \<in> {4, 6, 9, 11} then 30 else 31)"

definition valid_date :: "datetime \<Rightarrow> bool" where
  "valid_date d = (1 \<le> year d \<and> year d \<le> 9999 \<and> 1 \<le> month d \<and> month d \<le> 12 \<and>
                   1 \<le> day d \<and> day d \<le> days_in_month (year d) (month d))"

text \<open>
  \<open>dt + relativedelta(months=k)\<close> of \<open>dateutil\<close>, for \<open>k\<close> between \<open>-12\<close> and \<open>12\<close>: the
  month is moved, the year carried, the day clipped to the length of the new month, and
  the result built by \<open>dt.replace\<close>, which raises \<open>ValueError\<close> when the year leaves the
  range of the library.
\<close>

definition add_months :: "datetime \<Rightarrow> int \<Rightarrow> error + datetime" where
  "add_months dt k =
     (let m0 = month dt + k;
          y = (if m0 > 12 then year dt + 1 else if m0 < 1 then year dt - 1 else year dt);
          m = (if m0 > 12 then m0 - 12 else if m0 < 1 then m0 + 12 else m0);
          dd = min (days_in_month y m) (day dt)
      in if 1 \<le> y \<and> y \<le> 9999 then Inr \<lparr>year = y, month = m, day = dd\<rparr>
         else Inl ValueError)"

text \<open>
  The full month names of \<open>strftime('%B')\<close> in the C locale, and the year of \<open>'%Y'\<close>
  written as the C library of Linux writes it, as the decimal numeral of the year.
\<close>

definition month_names :: "string list" where
  "month_names = [''January'', ''February'', ''March'', ''April'', ''May'', ''June'',
                  ''July'', ''August'', ''September'', ''October'', ''November'', ''December'']"

definition month_name :: "int \<Rightarrow> string" where
  "month_name m = month_names ! nat (m - 1)"

definition strftime_B_Y :: "datetime \<Rightarrow> string" where
  "strftime_B_Y d = month_name (month d) @ '' '' @ str (year d)"

section \<open>Formatting helpers of the program\<close>

definition ordinal :: "int \<Rightarrow> string" where
  "ordinal n =
     (let suffix = (if 10 \<le> n mod 100 \<and> n mod 100 \<le> 20 then ''th''
                    else if n mod 10 = 1 then ''st''
                    else if n mod 10 = 2 then ''nd''
                    else if n mod 10 = 3 then ''rd''
                    else ''th'')
      in str n @ suffix)"

definition get_financial_year :: "datetime \<Rightarrow> string" where
  "get_financial_year date =
     (if month date \<ge> 4 then str (year date) @ ''-'' @ last2 (str (year date + 1))
      else str (year date - 1) @ ''-'' @ last2 (str (year date)))"

section \<open>Regular expressions\<close>

text \<open>
  The patterns of the program are sequences of four kinds of item: a literal, a group of
  literal alternatives \<open>(a|b|c)\<close>, a bounded greedy repetition \<open>c{m,n}\<close> of a character
  class and the greedy repetition \<open>c+\<close>. An item is matched as the backtracking matcher of
  \<open>re\<close> does: \<open>match_item\<close> lists every way to match the item at the start of the text,
  the consumed text paired with the rest, in the order in which the matcher tries them
  (alternatives from left to right, repetitions from the longest to the shortest).
\<close>

datatype cclass = Digit | Alpha | Space

fun in_class :: "cclass \<Rightarrow> char \<Rightarrow> bool" where
  "in_class Digit c = is_digit c"
| "in_class Alpha c = is_alpha c"
| "in_class Space c = is_space c"

datatype item = Lit string | Alt "string list" | Rep cclass nat nat | Plus cclass

fun match_item :: "item \<Rightarrow> string \<Rightarrow> (string \<times> string) list" where
  "match_item (Lit l) s = (if startswith s l then [(l, drop (length l) s)] else [])"
| "match_item (Alt ls) s =
     concat (map (\<lambda>l. if startswith s l then [(l, drop (length l) s)] else []) ls)"
| "match_item (Rep c m n) s =
     (let k = length (takeWhile (in_class c) (take n s))
      in map (\<lambda>j. (take j s, drop j s)) (rev [m..<Suc k]))"
| "match_item (Plus c) s =
     (let k = length (takeWhile (in_class c) s)
      in map (\<lambda>j. (take j s, drop j s)) (rev [1..<Suc k]))"

text \<open>
  All matches of a sequence of items at the start of the text, in the matcher's order, each
  with the text consumed by every item. The first of them is the match \<open>re\<close> reports.
\<close>

fun match_seq :: "item list \<Rightarrow> string \<Rightarrow> (string list \<times> string) list" where
  "match_seq [] s = [([], s)]"
| "match_seq (r # rs) s =
     concat (map (\<lambda>(c, rest). map (\<lambda>(cs, fin). (c # cs, fin)) (match_seq rs rest))
                 (match_item r s))"

definition re_match :: "item list \<Rightarrow> string \<Rightarrow> (string list \<times> string) option" where
  "re_match p s = (case match_seq p s of [] \<Rightarrow> None | m # _ \<Rightarrow> Some m)"

text \<open>
  \<open>re.search\<close>: the match at the leftmost position that has one, with the text before it.
\<close>

fun re_search :: "item list \<Rightarrow> string \<Rightarrow> (string \<times> string list \<times> string) option" where
  "re_search p [] = (case re_match p [] of None \<Rightarrow> None | Some (gs, r) \<Rightarrow> Some ([], gs, r))"
| "re_search p (c # cs) =
     (case re_match p (c # cs) of
        Some (gs, r) \<Rightarrow> Some ([], gs, r)
      | None \<Rightarrow> (case re_search p cs of
                   None \<Rightarrow> None
                 | Some (pre, gs, r) \<Rightarrow> Some (c # pre, gs, r)))"

text \<open>
  \<open>re.sub(pattern, repl, text)\<close> with a replacement free of backslashes: every match found
  scanning from the left is replaced, and the scan goes on behind it. The first argument
  counts the characters of the current match still to be skipped. The patterns of the
  program match no empty text; for one that does, the replacement is inserted and the
  scan moves on by one character.
\<close>

fun sub_scan :: "nat \<Rightarrow> item list \<Rightarrow> string \<Rightarrow> string \<Rightarrow> string" where
  "sub_scan k p repl [] = (if k = 0 \<and> re_match p [] \<noteq> None then repl else [])"
| "sub_scan k p repl (c # cs) =
     (if k > 0 then sub_scan (k - 1) p repl cs
      else (case re_match p (c # cs) of
              None \<Rightarrow> c # sub_scan 0 p repl cs
            | Some (gs, r) \<Rightarrow>
                (let n = length (concat gs)
                 in if n = 0 then repl @ c # sub_scan 0 p repl cs
                    else repl @ sub_scan (n - 1) p repl cs)))"

definition re_sub :: "item list \<Rightarrow> string \<Rightarrow> string \<Rightarrow> string" where
  "re_sub p repl text = sub_scan 0 p repl text"

subsection \<open>The patterns of the program\<close>

definition ordinal_suffix :: item where
  "ordinal_suffix = Alt [''st'', ''nd'', ''rd'', ''th'']"

text \<open>\<^verbatim>\<open>\d{1,2}(st|nd|rd|th)\s+([A-Za-z]+)\s+(\d{4})\<close>\<close>

definition extract_pattern :: "item list" where
  "extract_pattern =
     [Rep Digit 1 2, ordinal_suffix, Plus Space, Plus Alpha, Plus Space, Rep Digit 4 4]"

text \<open>\<^verbatim>\<open>Date:\s+\d{1,2}(st|nd|rd|th)\s+[A-Za-z]+\s+\d{4}\<close>\<close>

definition date1_pattern :: "item list" where
  "date1_pattern =
     [Lit ''Date:'', Plus Space, Rep Digit 1 2, ordinal_suffix, Plus Space, Plus Alpha,
      Plus Space, Rep Digit 4 4]"

text \<open>\<^verbatim>\<open>IN\d{4}/\d{4}-\d{2}\<close>\<close>

definition invoice_number_pattern :: "item list" where
  "invoice_number_pattern =
     [Lit ''IN'', Rep Digit 4 4, Lit ''/'', Rep Digit 4 4, Lit ''-'', Rep Digit 2 2]"

text \<open>\<^verbatim>\<open>\d{1,2}/\d{2}/\d{4}\<close>\<close>

definition date2_pattern :: "item list" where
  "date2_pattern = [Rep Digit 1 2, Lit ''/'', Rep Digit 2 2, Lit ''/'', Rep Digit 4 4]"

text \<open>\<^verbatim>\<open>\d{1,2}(st|nd|rd|th)\s+[A-Za-z]+\s+\d{4}\s+to\s+\d{1,2}(st|nd|rd|th)\s+[A-Za-z]+\s+\d{4}\<close>\<close>

definition service_period_pattern :: "item list" where
  "service_period_pattern =
     [Rep Digit 1 2, ordinal_suffix, Plus Space, Plus Alpha, Plus Space, Rep Digit 4 4,
      Plus Space, Lit ''to'', Plus Space,
      Rep Digit 1 2, ordinal_suffix, Plus Space, Plus Alpha, Plus Space, Rep Digit 4 4]"

section \<open>Parsing a date\<close>

text \<open>
  \<open>datetime.strptime(s, "%d %B %Y")\<close>. The library turns the format into the regular
  expression \<^verbatim>\<open>(3[0-1]|[1-2]\d|0[1-9]|[1-9]| [1-9])\s+(january|...)\s+(\d\d\d\d)\<close>,
  the month names ordered from the longest to the shortest and compared without regard to
  case, matches it at the start of \<open>s\<close>, and raises \<open>ValueError\<close> when there is no match,
  when text remains behind the match, or when the fields are no date.
\<close>

definition strptime_days :: "string list" where
  "strptime_days =
     [''30'', ''31''] @
     map (\<lambda>c. [CHR ''1'', c]) ''0123456789'' @
     map (\<lambda>c. [CHR ''2'', c]) ''0123456789'' @
     map (\<lambda>c. [CHR ''0'', c]) ''123456789'' @
     map (\<lambda>c. [c]) ''123456789'' @
     map (\<lambda>c. [CHR '' '', c]) ''123456789''"

definition strptime_months :: "string list" where
  "strptime_months =
     [''september'', ''february'', ''november'', ''december'', ''january'', ''october'',
      ''august'', ''march'', ''april'', ''june'', ''july'', ''may'']"

definition strptime_pattern :: "item list" where
  "strptime_pattern =
     [Alt strptime_days, Plus Space, Alt strptime_months, Plus Space, Rep Digit 4 4]"

definition month_number :: "string \<Rightarrow> int" where
  "month_number name =
     (case map_of (zip (map lower month_names) [1, 2, 3, 4, 5, 6, 7, 8, 9, 10, 11, 12]) name of
        Some m \<Rightarrow> m | None \<Rightarrow> 0)"

definition strptime_d_B_Y :: "string \<Rightarrow> error + datetime" where
  "strptime_d_B_Y s =
     (case re_match strptime_pattern (lower s) of
        Some ([d, _, b, _, y], rest) \<Rightarrow>
          (let date = \<lparr>year = int_of_digits y, month = month_number b,
                       day = int_of_digits (filter is_digit d)\<rparr>
           in if rest = [] \<and> valid_date date then Inr date else Inl ValueError)
      | _ \<Rightarrow> Inl ValueError)"

section \<open>Documents and the environment of a run\<close>

text \<open>
  A document as the program reads it through \<open>python-docx\<close>: the texts of its top-level
  paragraphs and, for every table, row and cell (no merged cells), the texts of the cell's
  paragraphs. Assigning to \<open>para.text\<close> and reading it back gives the assigned text.
\<close>

record document =
  paragraphs :: "string list"
  tables :: "string list list list list"

text \<open>
  An entry of the working directory: its name, the modification time that
  \<open>os.path.getmtime\<close> reports (only compared), \<open>None\<close> when the entry cannot be examined
  (a dangling link) and \<open>getmtime\<close> raises \<open>OSError\<close>, and the document
  \<open>Document(name)\<close> loads from it, \<open>None\<close> when loading raises. A run reads the directory
  in the order \<open>glob\<close> lists it, the clock, one draw of \<open>random.randint(1000, 9999)\<close>, and
  whether \<open>doc.save\<close> succeeds.
\<close>

record docx_file =
  fname :: string
  mtime :: "int option"
  content :: "document option"

record env =
  files :: "docx_file list"
  now :: datetime
  randint :: int
  save_ok :: bool

definition Document :: "env \<Rightarrow> string \<Rightarrow> error + document" where
  "Document e name =
     (case find (\<lambda>f. fname f = name) (files e) of
        None \<Rightarrow> Inl LoadError
      | Some f \<Rightarrow> (case content f of None \<Rightarrow> Inl LoadError | Some d \<Rightarrow> Inr d))"

section \<open>The deriver\<close>

text \<open>\<open>glob.glob("invoice_*.docx")\<close> keeps the names that start and end as the pattern does.\<close>

definition glob_invoice :: "string \<Rightarrow> bool" where
  "glob_invoice name =
     (length ''invoice_'' + length ''.docx'' \<le> length name \<and> startswith name ''invoice_'' \<and>
      startswith (rev name) (rev ''.docx''))"

text \<open>
  \<open>max(invoice_files, key=os.path.getmtime)\<close>: the key of every listed name is computed in
  turn, which raises \<open>OSError\<close> at the first entry that cannot be examined; the result is
  the first file of the greatest time. Nothing in \<open>find_latest_invoice\<close> or in
  \<open>determine_invoice_date\<close> catches the exception.
\<close>

fun max_mtime :: "docx_file \<Rightarrow> int \<Rightarrow> docx_file list \<Rightarrow> error + docx_file" where
  "max_mtime best t [] = Inr best"
| "max_mtime best t (f # fs) =
     (case mtime f of
        None \<Rightarrow> Inl OSError
      | Some u \<Rightarrow> (if u > t then max_mtime f u fs else max_mtime best t fs))"

definition find_latest_invoice :: "env \<Rightarrow> error + string option" where
  "find_latest_invoice e =
     (case filter (\<lambda>f. glob_invoice (fname f)) (files e) of
        [] \<Rightarrow> Inr None
      | f # fs \<Rightarrow>
          (case mtime f of
             None \<Rightarrow> Inl OSError
           | Some t \<Rightarrow>
               (case max_mtime f t fs of
                  Inl err \<Rightarrow> Inl err
                | Inr latest \<Rightarrow> Inr (Some (fname latest)))))"

text \<open>
  The loop of \<open>extract_date_from_latest_invoice\<close> over the paragraphs: the first paragraph
  that passes the test, matches the pattern and parses gives the date; a paragraph whose
  date does not parse is passed over.
\<close>

fun extract_date :: "string list \<Rightarrow> datetime option" where
  "extract_date [] = None"
| "extract_date (text # rest) =
     (if contains text ''Date:'' \<and>
         (contains text ''st '' \<or> contains text ''nd '' \<or> contains text ''rd '' \<or>
          contains text ''th '')
      then (case re_search extract_pattern text of
              Some (_, [_, _, _, group2, _, group3], _) \<Rightarrow>
                (let date_str = ''1 '' @ group2 @ '' '' @ str (int_of_digits group3)
                 in case strptime_d_B_Y date_str of
                      Inr date \<Rightarrow> Some date
                    | Inl _ \<Rightarrow> extract_date rest)
            | _ \<Rightarrow> extract_date rest)
      else extract_date rest)"

definition extract_date_from_latest_invoice :: "env \<Rightarrow> string \<Rightarrow> datetime option" where
  "extract_date_from_latest_invoice e latest_file =
     (case Document e latest_file of
        Inl _ \<Rightarrow> None
      | Inr doc \<Rightarrow> extract_date (paragraphs doc))"

definition determine_invoice_date :: "env \<Rightarrow> error + datetime" where
  "determine_invoice_date e =
     (let current_date = (now e)\<lparr>day := 1\<rparr>
      in case find_latest_invoice e of
           Inl err \<Rightarrow> Inl err
         | Inr None \<Rightarrow> Inr current_date
         | Inr (Some latest_file) \<Rightarrow>
             (case extract_date_from_latest_invoice e latest_file of
                None \<Rightarrow> Inr current_date
              | Some last_date \<Rightarrow> add_months last_date 1))"

section \<open>The values of a run\<close>

record fields =
  date_format1 :: string
  date_format2 :: string
  invoice_number :: string
  service_period :: string

definition make_invoice_number :: "int \<Rightarrow> datetime \<Rightarrow> string" where
  "make_invoice_number random_num invoice_date =
     ''IN'' @ str random_num @ ''/'' @ get_financial_year invoice_date"

definition make_date_format1 :: "datetime \<Rightarrow> string" where
  "make_date_format1 invoice_date =
     ordinal (day invoice_date) @ '' '' @ strftime_B_Y invoice_date"

definition make_date_format2 :: "datetime \<Rightarrow> string" where
  "make_date_format2 invoice_date =
     str (day invoice_date) @ ''/'' @ fmt_02d (month invoice_date) @ ''/'' @
     str (year invoice_date)"

definition make_service_period :: "datetime \<Rightarrow> error + string" where
  "make_service_period invoice_date =
     (case add_months invoice_date (- 1) of
        Inl err \<Rightarrow> Inl err
      | Inr prev_month_date \<Rightarrow>
          (let service_start_date = prev_month_date\<lparr>day := 7\<rparr>;
               service_end_date = invoice_date\<lparr>day := 6\<rparr>
           in Inr (ordinal (day service_start_date) @ '' '' @ strftime_B_Y service_start_date @
                   '' to '' @
                   ordinal (day service_end_date) @ '' '' @ strftime_B_Y service_end_date)))"


section \<open>The rewriter\<close>

record flags =
  date_format1_updated :: bool
  date_format2_updated :: bool
  invoice_number_updated :: bool
  service_period_updated :: bool

text \<open>
  The block the program repeats for every field: search the pattern in the text of the
  paragraph; when there is a match, assign \<open>re.sub(pattern, repl, text)\<close> to the paragraph
  and tell whether the text has changed.
\<close>

definition substitute :: "item list \<Rightarrow> string \<Rightarrow> string \<Rightarrow> string \<times> bool" where
  "substitute pattern repl text =
     (case re_search pattern text of
        None \<Rightarrow> (text, False)
      | Some _ \<Rightarrow> (let new_text = re_sub pattern repl text in (new_text, new_text \<noteq> text)))"



text \<open>
  The three steps on a paragraph of a table cell; the first two are also the steps of the
  last loop over the top-level paragraphs.
\<close>

definition update_invoice_number :: "fields \<Rightarrow> flags \<Rightarrow> string \<Rightarrow> string \<times> flags" where
  "update_invoice_number v fl text =
     (if contains text ''Invoice No:'' \<and> \<not> invoice_number_updated fl
      then (case substitute invoice_number_pattern (invoice_number v) text of
              (new_text, changed) \<Rightarrow>
                (new_text, if changed then fl\<lparr>invoice_number_updated := True\<rparr> else fl))
      else (text, fl))"





definition no_flags :: flags where
  "no_flags = \<lparr>date_format1_updated = False, date_format2_updated = False,
               invoice_number_updated = False, service_period_updated = False\<rparr>"


section \<open>The update routine\<close>








section \<open>Example runs\<close>

definition prior_1000 :: env where
  "prior_1000 =
     \<lparr>files = [\<lparr>fname = ''invoice_january_1000.docx'', mtime = Some 5,
                 content = Some \<lparr>paragraphs = [''Date: 1st January 1000''], tables = []\<rparr>\<rparr>],
      now = \<lparr>year = 2025, month = 3, day = 17\<rparr>, randint = 4711, save_ok = True\<rparr>"

text \<open>
  A directory whose only entry named like an invoice is a link to a file that is no longer
  there, beside the template.
\<close>

definition dangling_link :: env where
  "dangling_link =
     \<lparr>files = [\<lparr>fname = ''invoice_x.docx'', mtime = None, content = None\<rparr>,
                \<lparr>fname = ''template.docx'', mtime = Some 1,
                 content = Some \<lparr>paragraphs = [], tables = []\<rparr>\<rparr>],
      now = \<lparr>year = 2025, month = 3, day = 17\<rparr>, randint = 4711, save_ok = True\<rparr>"


definition run_1000 :: env where
  "run_1000 =
     \<lparr>files = [\<lparr>fname = ''invoice_february_1000.docx'', mtime = Some 5,
                 content = Some \<lparr>paragraphs = [''Date: 1st February 1000''], tables = []\<rparr>\<rparr>,
                \<lparr>fname = ''template.docx'', mtime = Some 1,
                 content = Some \<lparr>paragraphs = [],
                                 tables = [[[[''Invoice No: IN1234/2024-25'']]]]\<rparr>\<rparr>],
      now = \<lparr>year = 2025, month = 3, day = 17\<rparr>, randint = 4711, save_ok = True\<rparr>"





section \<open>Decimal numerals\<close>

lemma str_nat_ne: "str_nat n \<noteq> []"
  by (subst str_nat.simps) simp

lemma str_nat_last: "last (str_nat n) = digit_char (n mod 10)"
  by (subst str_nat.simps) simp

lemma str_nat_small: "n < 10 \<Longrightarrow> str_nat n = [digit_char n]"
  by (subst str_nat.simps) simp

lemma str_nat_big: "10 \<le> n \<Longrightarrow> str_nat n = str_nat (n div 10) @ [digit_char (n mod 10)]"
  by (subst str_nat.simps) simp

lemma last2_snoc: "xs \<noteq> [] \<Longrightarrow> last2 (xs @ [c]) = [last xs, c]"
  by (induction xs rule: rev_induct) (simp_all add: last2_def)

lemma last2_str_nat:
  "last2 (str_nat n) =
     (if n < 10 then [digit_char n] else [digit_char (n div 10 mod 10), digit_char (n mod 10)])"
proof (cases "n < 10")
  case True
  then show ?thesis by (simp add: str_nat_small last2_def)
next
  case False
  then have "str_nat n = str_nat (n div 10) @ [digit_char (n mod 10)]"
    by (simp add: str_nat_big)
  with False show ?thesis
    by (simp add: last2_snoc str_nat_ne str_nat_last)
qed

lemma digit_char_0: "digit_char 0 = CHR ''0''"
  by (simp add: digit_char_def)

lemma fmt_02d_two:
  "0 \<le> r \<Longrightarrow> r < 100 \<Longrightarrow>
   fmt_02d r = [digit_char (nat r div 10 mod 10), digit_char (nat r mod 10)]"
proof (cases "r < 10")
  case True
  assume "0 \<le> r"
  with True show ?thesis
    by (simp add: fmt_02d_def str_def str_nat_small digit_char_0)
next
  case False
  assume "r < 100"
  with False have "nat r div 10 < 10" "10 \<le> nat r" by auto
  with False show ?thesis
    by (simp add: fmt_02d_def str_def str_nat_big str_nat_small)
qed

lemma mod100_mod10: "(n::nat) mod 100 mod 10 = n mod 10"
  by (simp add: mod_mod_cancel)

lemma mod100_div10: "(n::nat) mod 100 div 10 = n div 10 mod 10"
proof -
  have "n mod (10 * 10) = 10 * (n div 10 mod 10) + n mod 10"
    by (rule mod_mult2_eq)
  then have "n mod 100 div 10 = (10 * (n div 10 mod 10) + n mod 10) div 10"
    by simp
  also have "\<dots> = n div 10 mod 10"
    by simp
  finally show ?thesis .
qed

lemmas str_eval = str_def str_nat_small str_nat_big digit_char_def last2_def fmt_02d_def

lemma last2_str:
  "0 \<le> y \<Longrightarrow> last2 (str y) = (if y < 10 then str (y mod 100) else fmt_02d (y mod 100))"
proof (cases "y < 10")
  case True
  assume "0 \<le> y"
  with True show ?thesis by (simp add: str_def str_nat_small last2_def)
next
  case False
  assume y: "0 \<le> y"
  have n: "nat (y mod 100) = nat y mod 100"
    using y by (simp add: nat_mod_distrib)
  have a: "nat (y mod 100) div 10 mod 10 = nat y div 10 mod 10"
    by (simp add: n mod100_div10)
  have b: "nat (y mod 100) mod 10 = nat y mod 10"
    by (simp add: n mod100_mod10)
  from False y show ?thesis
    by (simp add: str_def last2_str_nat fmt_02d_two a b)
qed

section \<open>The financial year\<close>

text \<open>
  C2. For every date of the library, the financial-year label is the year \<open>Y\<close> of the date,
  a hyphen and \<open>(Y + 1) mod 100\<close> when the month is 4 to 12, and \<open>Y - 1\<close>, a hyphen and
  \<open>Y mod 100\<close> when the month is 1 to 3. The remainder is written with two digits, as
  \<open>:02d\<close> writes it, except before the year 10, where the second year has a single digit
  and is written so. March 2025 gives \<open>2024-25\<close> and April 2025 gives \<open>2025-26\<close>.
\<close>

theorem get_financial_year_label:
  assumes "valid_date d"
  shows "(4 \<le> month d \<longrightarrow>
            get_financial_year d =
              str (year d) @ ''-'' @
              (if year d + 1 < 10 then str ((year d + 1) mod 100)
               else fmt_02d ((year d + 1) mod 100))) \<and>
         (month d < 4 \<longrightarrow>
            get_financial_year d =
              str (year d - 1) @ ''-'' @
              (if year d < 10 then str (year d mod 100) else fmt_02d (year d mod 100))) \<and>
         get_financial_year \<lparr>year = 2025, month = 3, day = 1\<rparr> = ''2024-25'' \<and>
         get_financial_year \<lparr>year = 2025, month = 4, day = 1\<rparr> = ''2025-26''"
proof -
  from assms have y: "0 \<le> year d" "0 \<le> year d + 1"
    by (simp_all add: valid_date_def)
  have e1: "last2 (str (year d + 1)) =
      (if year d + 1 < 10 then str ((year d + 1) mod 100) else fmt_02d ((year d + 1) mod 100))"
    using y(2) by (rule last2_str)
  have e2: "last2 (str (year d)) =
      (if year d < 10 then str (year d mod 100) else fmt_02d (year d mod 100))"
    using y(1) by (rule last2_str)
  have a: "4 \<le> month d \<longrightarrow>
            get_financial_year d =
              str (year d) @ ''-'' @
              (if year d + 1 < 10 then str ((year d + 1) mod 100)
               else fmt_02d ((year d + 1) mod 100))"
    unfolding get_financial_year_def e1 by simp
  have b: "month d < 4 \<longrightarrow>
            get_financial_year d =
              str (year d - 1) @ ''-'' @
              (if year d < 10 then str (year d mod 100) else fmt_02d (year d mod 100))"
    unfolding get_financial_year_def e2 by simp
  have c: "get_financial_year \<lparr>year = 2025, month = 3, day = 1\<rparr> = ''2024-25''"
    by (simp add: get_financial_year_def str_eval)
  have d: "get_financial_year \<lparr>year = 2025, month = 4, day = 1\<rparr> = ''2025-26''"
    by (simp add: get_financial_year_def str_eval)
  show ?thesis by (rule conjI [OF a conjI [OF b conjI [OF c d]]])
qed

theorem get_financial_year_label_witness:
  "valid_date \<lparr>year = 2008, month = 11, day = 1\<rparr> \<and>
   get_financial_year \<lparr>year = 2008, month = 11, day = 1\<rparr> = ''2008-09''"
proof -
  have v: "valid_date \<lparr>year = 2008, month = 11, day = 1\<rparr>"
    by (simp add: valid_date_def days_in_month_def)
  have r: "str (year \<lparr>year = 2008, month = 11, day = 1\<rparr>) @ ''-'' @
      (if year \<lparr>year = 2008, month = 11, day = 1\<rparr> + 1 < 10
       then str ((year \<lparr>year = 2008, month = 11, day = 1\<rparr> + 1) mod 100)
       else fmt_02d ((year \<lparr>year = 2008, month = 11, day = 1\<rparr> + 1) mod 100)) = ''2008-09''"
    by (simp add: str_eval)
  have m: "4 \<le> month \<lparr>year = 2008, month = 11, day = 1\<rparr>"
    by simp
  have g: "get_financial_year \<lparr>year = 2008, month = 11, day = 1\<rparr> =
      str (year \<lparr>year = 2008, month = 11, day = 1\<rparr>) @ ''-'' @
      (if year \<lparr>year = 2008, month = 11, day = 1\<rparr> + 1 < 10
       then str ((year \<lparr>year = 2008, month = 11, day = 1\<rparr> + 1) mod 100)
       else fmt_02d ((year \<lparr>year = 2008, month = 11, day = 1\<rparr> + 1) mod 100))"
    by (rule get_financial_year_label [OF v, THEN conjunct1, THEN mp, OF m])
  show ?thesis by (rule conjI [OF v trans [OF g r]])
qed

section \<open>The service period\<close>

lemma ordinal_7: "ordinal 7 = ''7th''"
  by (simp add: ordinal_def str_eval)

lemma ordinal_6: "ordinal 6 = ''6th''"
  by (simp add: ordinal_def str_eval)

lemma ordinal_1: "ordinal 1 = ''1st''"
  by (simp add: ordinal_def str_eval)

lemma add_months_back:
  assumes "valid_date d" "\<not> (year d = 1 \<and> month d = 1)"
  shows "add_months d (- 1) =
         Inr \<lparr>year = (if month d = 1 then year d - 1 else year d),
              month = (if month d = 1 then 12 else month d - 1),
              day = min (days_in_month (if month d = 1 then year d - 1 else year d)
                                       (if month d = 1 then 12 else month d - 1)) (day d)\<rparr>"
proof (cases "month d = 1")
  case True
  with assms show ?thesis
    by (simp add: add_months_def valid_date_def Let_def)
next
  case False
  with assms show ?thesis
    by (simp add: add_months_def valid_date_def Let_def)
qed

text \<open>
  C3. For every invoice date that has a preceding calendar month in the range of the
  library (every date but January of the year 1), the service period is computed and reads
  \<open>7th\<close>, the full name of the preceding month and its year, \<open>to 6th\<close>, the full name of
  the month of the invoice date and its year. For 1 March 2025 it is
  \<open>7th February 2025 to 6th March 2025\<close>.
\<close>

theorem service_period_format:
  assumes "valid_date d" and "\<not> (year d = 1 \<and> month d = 1)"
  shows "make_service_period d =
           Inr (''7th '' @ month_name (if month d = 1 then 12 else month d - 1) @ '' '' @
                str (if month d = 1 then year d - 1 else year d) @
                '' to 6th '' @ month_name (month d) @ '' '' @ str (year d)) \<and>
         make_service_period \<lparr>year = 2025, month = 3, day = 1\<rparr> =
           Inr ''7th February 2025 to 6th March 2025''"
proof -
  have a: "make_service_period d =
           Inr (''7th '' @ month_name (if month d = 1 then 12 else month d - 1) @ '' '' @
                str (if month d = 1 then year d - 1 else year d) @
                '' to 6th '' @ month_name (month d) @ '' '' @ str (year d))"
    unfolding make_service_period_def add_months_back [OF assms]
    by (simp add: ordinal_7 ordinal_6 strftime_B_Y_def)
  have b: "make_service_period \<lparr>year = 2025, month = 3, day = 1\<rparr> =
           Inr ''7th February 2025 to 6th March 2025''"
    by (simp add: make_service_period_def add_months_def days_in_month_def isleap_def
        ordinal_7 ordinal_6 strftime_B_Y_def month_name_def month_names_def str_eval)
  show ?thesis by (rule conjI [OF a b])
qed

theorem service_period_format_witness:
  "valid_date \<lparr>year = 2026, month = 1, day = 1\<rparr> \<and>
   make_service_period \<lparr>year = 2026, month = 1, day = 1\<rparr> =
     Inr ''7th December 2025 to 6th January 2026''"
proof -
  have v: "valid_date \<lparr>year = 2026, month = 1, day = 1\<rparr>"
    by (simp add: valid_date_def days_in_month_def)
  have n: "\<not> (year \<lparr>year = 2026, month = 1, day = 1\<rparr> = 1 \<and>
               month \<lparr>year = 2026, month = 1, day = 1\<rparr> = 1)"
    by simp
  have r: "''7th '' @ month_name (if month \<lparr>year = 2026, month = 1, day = 1\<rparr> = 1 then 12
                                   else month \<lparr>year = 2026, month = 1, day = 1\<rparr> - 1) @ '' '' @
           str (if month \<lparr>year = 2026, month = 1, day = 1\<rparr> = 1
                then year \<lparr>year = 2026, month = 1, day = 1\<rparr> - 1
                else year \<lparr>year = 2026, month = 1, day = 1\<rparr>) @
           '' to 6th '' @ month_name (month \<lparr>year = 2026, month = 1, day = 1\<rparr>) @ '' '' @
           str (year \<lparr>year = 2026, month = 1, day = 1\<rparr>) =
           ''7th December 2025 to 6th January 2026''"
    by (simp add: month_name_def month_names_def str_eval)
  have g: "make_service_period \<lparr>year = 2026, month = 1, day = 1\<rparr> =
           Inr (''7th '' @ month_name (if month \<lparr>year = 2026, month = 1, day = 1\<rparr> = 1 then 12
                                   else month \<lparr>year = 2026, month = 1, day = 1\<rparr> - 1) @ '' '' @
           str (if month \<lparr>year = 2026, month = 1, day = 1\<rparr> = 1
                then year \<lparr>year = 2026, month = 1, day = 1\<rparr> - 1
                else year \<lparr>year = 2026, month = 1, day = 1\<rparr>) @
           '' to 6th '' @ month_name (month \<lparr>year = 2026, month = 1, day = 1\<rparr>) @ '' '' @
           str (year \<lparr>year = 2026, month = 1, day = 1\<rparr>))"
    by (rule service_period_format [OF v n, THEN conjunct1])
  have r': "Inr (''7th '' @ month_name (if month \<lparr>year = 2026, month = 1, day = 1\<rparr> = 1 then 12
                                   else month \<lparr>year = 2026, month = 1, day = 1\<rparr> - 1) @ '' '' @
           str (if month \<lparr>year = 2026, month = 1, day = 1\<rparr> = 1
                then year \<lparr>year = 2026, month = 1, day = 1\<rparr> - 1
                else year \<lparr>year = 2026, month = 1, day = 1\<rparr>) @
           '' to 6th '' @ month_name (month \<lparr>year = 2026, month = 1, day = 1\<rparr>) @ '' '' @
           str (year \<lparr>year = 2026, month = 1, day = 1\<rparr>)) =
           (Inr ''7th December 2025 to 6th January 2026'' :: error + string)"
    by (rule arg_cong [where f = Inr, OF r])
  show ?thesis by (rule conjI [OF v trans [OF g r']])
qed

section \<open>The fallback to the current date\<close>

lemma find_latest_invoice_none:
  assumes "\<forall>f\<in>set (files e). \<not> glob_invoice (fname f)"
  shows "find_latest_invoice e = Inr None"
proof -
  from assms have "filter (\<lambda>f. glob_invoice (fname f)) (files e) = []"
    by (simp add: filter_empty_conv)
  then show ?thesis by (simp add: find_latest_invoice_def)
qed

text \<open>
  C6 at a dangling link. In the directory \<open>dangling_link\<close> the one name that \<open>glob\<close>
  lists is a link to a file that is not there: no prior invoice file exists and no document
  loads from the name. The deriver is written to use the current date when no previous
  invoice is found, and yet it gives no date at all here, because \<open>os.path.getmtime\<close>
  raises \<open>OSError\<close> inside \<open>find_latest_invoice\<close> and \<open>determine_invoice_date\<close> passes the
  exception on.
\<close>

theorem fallback_dangling_link:
  "map fname (filter (\<lambda>f. glob_invoice (fname f)) (files dangling_link)) = [''invoice_x.docx''] \<and>
   Document dangling_link ''invoice_x.docx'' = Inl LoadError \<and>
   find_latest_invoice dangling_link = Inl OSError \<and>
   determine_invoice_date dangling_link = Inl OSError"
proof -
  have a: "map fname (filter (\<lambda>f. glob_invoice (fname f)) (files dangling_link)) =
           [''invoice_x.docx'']"
    by (simp add: dangling_link_def glob_invoice_def)
  have b: "Document dangling_link ''invoice_x.docx'' = Inl LoadError"
    by (simp add: dangling_link_def Document_def)
  have c: "find_latest_invoice dangling_link = Inl OSError"
    by (simp add: dangling_link_def find_latest_invoice_def glob_invoice_def)
  have d: "determine_invoice_date dangling_link = Inl OSError"
    by (simp add: determine_invoice_date_def c)
  show ?thesis by (rule conjI [OF a conjI [OF b conjI [OF c d]]])
qed

text \<open>
  C6. When no name of the directory has the form \<open>invoice_*.docx\<close>, or every entry of
  that form can be examined and the latest of them gives no date (it does not load, or
  none of its paragraphs has a date that parses), the invoice date is the date of the
  clock with the day set to 1.
\<close>

theorem fallback_current_date:
  assumes "(\<forall>f\<in>set (files e). \<not> glob_invoice (fname f)) \<or>
           (\<exists>name. find_latest_invoice e = Inr (Some name) \<and>
                   extract_date_from_latest_invoice e name = None)"
  shows "determine_invoice_date e = Inr ((now e)\<lparr>day := 1\<rparr>)"
  using assms
proof
  assume "\<forall>f\<in>set (files e). \<not> glob_invoice (fname f)"
  then have "find_latest_invoice e = Inr None"
    by (rule find_latest_invoice_none)
  then show ?thesis by (simp add: determine_invoice_date_def)
next
  assume "\<exists>name. find_latest_invoice e = Inr (Some name) \<and>
                 extract_date_from_latest_invoice e name = None"
  then show ?thesis by (auto simp add: determine_invoice_date_def)
qed

theorem fallback_current_date_witness:
  "find_latest_invoice
     \<lparr>files = [\<lparr>fname = ''invoice_march_2024.docx'', mtime = Some 5,
                 content = Some \<lparr>paragraphs = [''Invoice''], tables = []\<rparr>\<rparr>],
      now = \<lparr>year = 2025, month = 3, day = 17\<rparr>, randint = 4711, save_ok = True\<rparr> =
     Inr (Some ''invoice_march_2024.docx'') \<and>
   extract_date_from_latest_invoice
     \<lparr>files = [\<lparr>fname = ''invoice_march_2024.docx'', mtime = Some 5,
                 content = Some \<lparr>paragraphs = [''Invoice''], tables = []\<rparr>\<rparr>],
      now = \<lparr>year = 2025, month = 3, day = 17\<rparr>, randint = 4711, save_ok = True\<rparr>
     ''invoice_march_2024.docx'' = None \<and>
   determine_invoice_date
     \<lparr>files = [\<lparr>fname = ''invoice_march_2024.docx'', mtime = Some 5,
                 content = Some \<lparr>paragraphs = [''Invoice''], tables = []\<rparr>\<rparr>],
      now = \<lparr>year = 2025, month = 3, day = 17\<rparr>, randint = 4711, save_ok = True\<rparr> =
     Inr \<lparr>year = 2025, month = 3, day = 1\<rparr>"
proof -
  let ?e = "\<lparr>files = [\<lparr>fname = ''invoice_march_2024.docx'', mtime = Some 5,
                 content = Some \<lparr>paragraphs = [''Invoice''], tables = []\<rparr>\<rparr>],
      now = \<lparr>year = 2025, month = 3, day = 17\<rparr>, randint = 4711, save_ok = True\<rparr>"
  have a: "find_latest_invoice ?e = Inr (Some ''invoice_march_2024.docx'')"
    by (simp add: find_latest_invoice_def glob_invoice_def)
  have b: "extract_date_from_latest_invoice ?e ''invoice_march_2024.docx'' = None"
    by (simp add: extract_date_from_latest_invoice_def Document_def)
  have h: "(\<forall>f\<in>set (files ?e). \<not> glob_invoice (fname f)) \<or>
           (\<exists>name. find_latest_invoice ?e = Inr (Some name) \<and>
                   extract_date_from_latest_invoice ?e name = None)"
    by (rule disjI2, rule exI, rule conjI [OF a b])
  have c: "determine_invoice_date ?e = Inr ((now ?e)\<lparr>day := 1\<rparr>)"
    using h by (rule fallback_current_date)
  have d: "determine_invoice_date ?e = Inr \<lparr>year = 2025, month = 3, day = 1\<rparr>"
    using c by simp
  show ?thesis by (rule conjI [OF a conjI [OF b d]])
qed

section \<open>Failures of the update routine\<close>




section \<open>Digits\<close>

lemma digit_char_is_digit: "is_digit (digit_char n)"
proof -
  have "n mod 10 < length ''0123456789''" by simp
  then have "''0123456789'' ! (n mod 10) \<in> set ''0123456789''" by (rule nth_mem)
  then show ?thesis by (simp only: is_digit_def digit_char_def)
qed

lemma str_nat_digits: "c \<in> set (str_nat n) \<Longrightarrow> is_digit c"
proof (induction n arbitrary: c rule: str_nat.induct)
  case (1 n)
  show ?case
  proof (cases "n < 10")
    case True
    with 1(2) show ?thesis by (simp add: str_nat_small digit_char_is_digit)
  next
    case False
    with 1(2) have "c \<in> set (str_nat (n div 10)) \<or> c = digit_char (n mod 10)"
      by (auto simp add: str_nat_big)
    with 1(1) False show ?thesis by (auto simp add: digit_char_is_digit)
  qed
qed

lemma str_nat_length4: "1000 \<le> n \<Longrightarrow> n < 10000 \<Longrightarrow> length (str_nat n) = 4"
proof -
  assume n: "1000 \<le> n" "n < 10000"
  then have a: "10 \<le> n" "10 \<le> n div 10" "10 \<le> n div 10 div 10" "n div 10 div 10 div 10 < 10"
    by simp_all
  show ?thesis
    by (simp add: str_nat_big [OF a(1)] str_nat_big [OF a(2)] str_nat_big [OF a(3)]
        str_nat_small [OF a(4)])
qed

lemma str_length4: "1000 \<le> y \<Longrightarrow> y \<le> 9999 \<Longrightarrow> length (str y) = 4"
  by (simp add: str_def str_nat_length4)

lemma str_digits: "0 \<le> y \<Longrightarrow> c \<in> set (str y) \<Longrightarrow> is_digit c"
  by (simp add: str_def str_nat_digits)

lemma last2_str_length: "10 \<le> y \<Longrightarrow> length (last2 (str y)) = 2"
  by (simp add: str_def last2_str_nat)

lemma last2_str_digits: "0 \<le> y \<Longrightarrow> c \<in> set (last2 (str y)) \<Longrightarrow> is_digit c"
  by (auto simp add: last2_def dest: in_set_dropD str_digits)

section \<open>Matching\<close>

lemma startswith_append: "startswith (l @ s) l"
  by (induction l) simp_all

lemma match_lit: "match_item (Lit l) (l @ s) = [(l, s)]"
  by (simp add: startswith_append)

lemma takeWhile_all: "\<forall>c\<in>set ds. P c \<Longrightarrow> takeWhile P ds = ds"
  by (induction ds) simp_all

lemma match_rep_exact:
  assumes "length ds = n" and "\<forall>c\<in>set ds. in_class x c"
  shows "match_item (Rep x n n) (ds @ s) = [(ds, s)]"
proof -
  have t: "takeWhile (in_class x) (take n (ds @ s)) = ds"
    using assms by (simp add: takeWhile_all)
  have k: "length (takeWhile (in_class x) (take n (ds @ s))) = n"
    unfolding t by (rule assms(1))
  show ?thesis
    unfolding match_item.simps k Let_def by (simp add: assms(1))
qed

lemma re_match_cons:
  assumes "match_item r s = (c, rest) # others" and "re_match rs rest = Some (cs, fin)"
  shows "re_match (r # rs) s = Some (c # cs, fin)"
proof -
  from assms(2) obtain ms where "match_seq rs rest = (cs, fin) # ms"
    by (auto simp add: re_match_def split: list.splits)
  with assms(1) show ?thesis by (simp add: re_match_def)
qed

lemma re_match_nil: "re_match [] s = Some ([], s)"
  by (simp add: re_match_def)

section \<open>The invoice number\<close>

lemma invoice_number_matches:
  assumes "length a = 4" "\<forall>c\<in>set a. is_digit c" "length b = 4" "\<forall>c\<in>set b. is_digit c"
    "length c2 = 2" "\<forall>c\<in>set c2. is_digit c"
  shows "re_match invoice_number_pattern (''IN'' @ a @ ''/'' @ b @ ''-'' @ c2) =
         Some ([''IN'', a, ''/'', b, ''-'', c2], [])"
proof -
  have d: "\<forall>c\<in>set a. in_class Digit c" "\<forall>c\<in>set b. in_class Digit c"
    "\<forall>c\<in>set c2. in_class Digit c"
    using assms by simp_all
  have "match_item (Rep Digit 2 2) (c2 @ []) = [(c2, [])]"
    using assms(5) d(3) by (rule match_rep_exact)
  then have m6: "match_item (Rep Digit 2 2) c2 = [(c2, [])]"
    by simp
  have 6: "re_match [Rep Digit 2 2] c2 = Some ([c2], [])"
    by (rule re_match_cons [OF m6 re_match_nil])
  have 5: "re_match [Lit ''-'', Rep Digit 2 2] (''-'' @ c2) = Some ([''-'', c2], [])"
    by (rule re_match_cons [OF match_lit 6])
  have 4: "re_match [Rep Digit 4 4, Lit ''-'', Rep Digit 2 2] (b @ ''-'' @ c2) =
           Some ([b, ''-'', c2], [])"
    by (rule re_match_cons [OF match_rep_exact [OF assms(3) d(2)] 5])
  have 3: "re_match [Lit ''/'', Rep Digit 4 4, Lit ''-'', Rep Digit 2 2] (''/'' @ b @ ''-'' @ c2) =
           Some ([''/'', b, ''-'', c2], [])"
    by (rule re_match_cons [OF match_lit 4])
  have 2: "re_match [Rep Digit 4 4, Lit ''/'', Rep Digit 4 4, Lit ''-'', Rep Digit 2 2]
             (a @ ''/'' @ b @ ''-'' @ c2) = Some ([a, ''/'', b, ''-'', c2], [])"
    by (rule re_match_cons [OF match_rep_exact [OF assms(1) d(1)] 3])
  show ?thesis
    unfolding invoice_number_pattern_def by (rule re_match_cons [OF match_lit 2])
qed

text \<open>
  C9 at the financial year 999. A prior invoice dated January 1000 makes the invoice date
  February 1000, whose financial year starts in 999: \<open>get_financial_year\<close> writes the label
  \<open>999-00\<close>, not in the format \<open>YYYY-YY\<close> it documents, the number is \<open>IN4711/999-00\<close>,
  and the pattern by which the rewriter looks for invoice numbers is found nowhere in it.
\<close>

theorem invoice_number_year_1000:
  "determine_invoice_date prior_1000 = Inr \<lparr>year = 1000, month = 2, day = 1\<rparr> \<and>
   make_invoice_number 4711 \<lparr>year = 1000, month = 2, day = 1\<rparr> = ''IN4711/999-00'' \<and>
   re_search invoice_number_pattern ''IN4711/999-00'' = None"
proof -
  have a: "determine_invoice_date prior_1000 = Inr \<lparr>year = 1000, month = 2, day = 1\<rparr>"
    by code_simp
  have b: "make_invoice_number 4711 \<lparr>year = 1000, month = 2, day = 1\<rparr> = ''IN4711/999-00''"
    by (simp add: make_invoice_number_def get_financial_year_def str_eval)
  have c: "re_search invoice_number_pattern ''IN4711/999-00'' = None"
    by code_simp
  show ?thesis by (rule conjI [OF a conjI [OF b c]])
qed

text \<open>
  C9. For every draw between 1000 and 9999 and every date, the invoice number is \<open>IN\<close>, the
  four digits of the draw, a slash and the financial-year label. For every invoice date
  whose financial year starts in the year 1000 or later, the pattern matches the whole of
  the number: the four digits of the draw, the four digits of the starting year and the two
  digits of the ending year.
\<close>

theorem invoice_number_format:
  assumes "1000 \<le> r" and "r \<le> 9999"
  shows "make_invoice_number r d = ''IN'' @ str r @ ''/'' @ get_financial_year d \<and>
         length (str r) = 4 \<and> (\<forall>c\<in>set (str r). is_digit c) \<and>
         (valid_date d \<and> 1000 \<le> (if 4 \<le> month d then year d else year d - 1) \<longrightarrow>
          re_match invoice_number_pattern (make_invoice_number r d) =
            Some ([''IN'', str r, ''/'', str (if 4 \<le> month d then year d else year d - 1), ''-'',
                   last2 (str (if 4 \<le> month d then year d + 1 else year d))], []))"
proof -
  let ?y0 = "if 4 \<le> month d then year d else year d - 1"
  let ?y1 = "if 4 \<le> month d then year d + 1 else year d"
  have r4: "length (str r) = 4" using assms(1,2) by (rule str_length4)
  have r0: "0 \<le> r" using assms(1) by simp
  have rd: "\<forall>c\<in>set (str r). is_digit c" using r0 by (auto intro: str_digits)
  have n': "make_invoice_number r d = ''IN'' @ str r @ ''/'' @ get_financial_year d"
    by (simp add: make_invoice_number_def)
  have m: "valid_date d \<and> 1000 \<le> ?y0 \<longrightarrow>
           re_match invoice_number_pattern (make_invoice_number r d) =
           Some ([''IN'', str r, ''/'', str ?y0, ''-'', last2 (str ?y1)], [])"
  proof
    assume h: "valid_date d \<and> 1000 \<le> ?y0"
    then have y: "year d \<le> 9999" by (simp add: valid_date_def)
    have y0: "0 \<le> ?y0" "0 \<le> ?y1" using h by auto
    have y4: "length (str ?y0) = 4" using h y by (intro str_length4) auto
    have yd: "\<forall>c\<in>set (str ?y0). is_digit c" using y0(1) by (auto intro: str_digits)
    have l2: "length (last2 (str ?y1)) = 2" using h by (intro last2_str_length) auto
    have ld: "\<forall>c\<in>set (last2 (str ?y1)). is_digit c"
      using y0(2) by (auto intro: last2_str_digits)
    have g: "get_financial_year d = str ?y0 @ ''-'' @ last2 (str ?y1)"
      by (simp add: get_financial_year_def)
    have n: "make_invoice_number r d =
             ''IN'' @ str r @ ''/'' @ str ?y0 @ ''-'' @ last2 (str ?y1)"
      unfolding make_invoice_number_def g ..
    show "re_match invoice_number_pattern (make_invoice_number r d) =
           Some ([''IN'', str r, ''/'', str ?y0, ''-'', last2 (str ?y1)], [])"
      unfolding n using r4 rd y4 yd l2 ld by (rule invoice_number_matches)
  qed
  show ?thesis by (rule conjI [OF n' conjI [OF r4 conjI [OF rd m]]])
qed

theorem invoice_number_format_witness:
  "valid_date \<lparr>year = 2025, month = 3, day = 1\<rparr> \<and>
   make_invoice_number 4711 \<lparr>year = 2025, month = 3, day = 1\<rparr> = ''IN4711/2024-25'' \<and>
   re_match invoice_number_pattern (make_invoice_number 4711 \<lparr>year = 2025, month = 3, day = 1\<rparr>) =
     Some ([''IN'', ''4711'', ''/'', ''2024'', ''-'', ''25''], [])"
proof -
  let ?d = "\<lparr>year = 2025, month = 3, day = 1\<rparr>"
  have v: "valid_date ?d"
    by (simp add: valid_date_def days_in_month_def)
  have h: "1000 \<le> (if 4 \<le> month ?d then year ?d else year ?d - 1)"
    by simp
  have r: "(1000::int) \<le> 4711" "(4711::int) \<le> 9999" by simp_all
  note t = invoice_number_format [OF r, of ?d]
  have s: "str 4711 = ''4711''" "str 2024 = ''2024''" "last2 (str 2025) = ''25''"
    by (simp_all add: str_eval)
  have g: "get_financial_year ?d = ''2024-25''"
    by (simp add: get_financial_year_def str_eval)
  have a: "make_invoice_number 4711 ?d = ''IN4711/2024-25''"
    using t [THEN conjunct1] by (simp add: s g)
  have b: "re_match invoice_number_pattern (make_invoice_number 4711 ?d) =
     Some ([''IN'', ''4711'', ''/'', ''2024'', ''-'', ''25''], [])"
    using t [THEN conjunct2, THEN conjunct2, THEN conjunct2, THEN mp, OF conjI [OF v h]]
    by (simp add: s)
  show ?thesis by (rule conjI [OF v conjI [OF a b]])
qed

section \<open>Character classes\<close>

lemma space_not_alpha: "is_space c \<Longrightarrow> \<not> is_alpha c"
  by (auto simp add: is_space_def is_alpha_def)

lemma space_not_digit: "is_space c \<Longrightarrow> \<not> is_digit c"
  by (auto simp add: is_space_def is_digit_def)

lemma alpha_not_digit: "is_alpha c \<Longrightarrow> \<not> is_digit c"
  by (auto simp add: is_alpha_def is_digit_def)


section \<open>Greedy repetitions\<close>

lemma takeWhile_stop:
  assumes "\<forall>c\<in>set ds. P c" and "s = [] \<or> \<not> P (hd s)"
  shows "takeWhile P (ds @ s) = ds"
proof -
  from assms(2) have "takeWhile P s = []" by (cases s) auto
  with assms(1) show ?thesis by (simp add: takeWhile_append2)
qed

lemma upt_rev_first: "m \<le> k \<Longrightarrow> \<exists>js. rev [m..<Suc k] = k # js"
  by simp

lemma match_plus_first:
  assumes "ws \<noteq> []" and "\<forall>c\<in>set ws. in_class x c" and "s = [] \<or> \<not> in_class x (hd s)"
  shows "\<exists>others. match_item (Plus x) (ws @ s) = (ws, s) # others"
proof -
  have k: "length (takeWhile (in_class x) (ws @ s)) = length ws"
    using takeWhile_stop [OF assms(2,3)] by simp
  from assms(1) have "1 \<le> length ws" by (cases ws) auto
  then obtain js where js: "rev [1..<Suc (length ws)] = length ws # js"
    using upt_rev_first by blast
  show ?thesis
    unfolding match_item.simps k Let_def js by simp
qed

lemma match_rep_first:
  assumes "m \<le> length ds" and "length ds \<le> n" and "\<forall>c\<in>set ds. in_class x c"
    and "s = [] \<or> \<not> in_class x (hd s)"
  shows "\<exists>others. match_item (Rep x m n) (ds @ s) = (ds, s) # others"
proof -
  have t: "take n (ds @ s) = ds @ take (n - length ds) s"
    using assms(2) by simp
  have h: "take (n - length ds) s = [] \<or> \<not> in_class x (hd (take (n - length ds) s))"
    using assms(4) by (cases s; cases "n - length ds") auto
  have k: "length (takeWhile (in_class x) (take n (ds @ s))) = length ds"
    unfolding t using takeWhile_stop [OF assms(3) h] by simp
  obtain js where js: "rev [m..<Suc (length ds)] = length ds # js"
    using upt_rev_first [OF assms(1)] by blast
  show ?thesis
    unfolding match_item.simps k Let_def js by simp
qed

lemma match_suffix:
  assumes "suf \<in> set [''st'', ''nd'', ''rd'', ''th'']"
  shows "\<exists>others. match_item ordinal_suffix (suf @ s) = (suf, s) # others"
  using assms by (auto simp add: ordinal_suffix_def)

lemma re_match_step:
  assumes "\<exists>others. match_item r s = (c, rest) # others" and "re_match rs rest = Some (cs, fin)"
  shows "re_match (r # rs) s = Some (c # cs, fin)"
proof -
  from assms(1) obtain others where "match_item r s = (c, rest) # others" ..
  then show ?thesis using assms(2) by (rule re_match_cons)
qed

lemma re_match_lit:
  assumes "re_match rs rest = Some (cs, fin)"
  shows "re_match (Lit l # rs) (l @ rest) = Some (l # cs, fin)"
  by (rule re_match_cons [OF match_lit assms])

section \<open>Dates in the long form\<close>

text \<open>
  A day of one or two digits, an ordinal suffix, white space, a word of letters, white
  space and four digits are matched by the six items of the long form as a whole, whatever
  follows.
\<close>

lemma long_date_matches:
  assumes dy: "1 \<le> length dy" "length dy \<le> 2" "\<forall>c\<in>set dy. is_digit c"
    and suf: "suf \<in> set [''st'', ''nd'', ''rd'', ''th'']"
    and w1: "w1 \<noteq> []" "\<forall>c\<in>set w1. is_space c"
    and mn: "mn \<noteq> []" "\<forall>c\<in>set mn. is_alpha c"
    and w2: "w2 \<noteq> []" "\<forall>c\<in>set w2. is_space c"
    and y: "length y = 4" "\<forall>c\<in>set y. is_digit c"
    and rest: "re_match rs rest = Some (cs, fin)"
  shows "re_match (Rep Digit 1 2 # ordinal_suffix # Plus Space # Plus Alpha # Plus Space #
                   Rep Digit 4 4 # rs)
           (dy @ suf @ w1 @ mn @ w2 @ y @ rest) =
         Some (dy # suf # w1 # mn # w2 # y # cs, fin)"
proof -
  have cd: "\<forall>c\<in>set dy. in_class Digit c" "\<forall>c\<in>set y. in_class Digit c"
    and cw: "\<forall>c\<in>set w1. in_class Space c" "\<forall>c\<in>set w2. in_class Space c"
    and ca: "\<forall>c\<in>set mn. in_class Alpha c"
    using dy y w1 w2 mn by simp_all
  have hy: "y \<noteq> []" using y(1) by auto
  have 6: "re_match (Rep Digit 4 4 # rs) (y @ rest) = Some (y # cs, fin)"
    by (rule re_match_cons [OF match_rep_exact [OF y(1) cd(2)] rest])
  have s5: "y @ rest = [] \<or> \<not> in_class Space (hd (y @ rest))"
    using hy y(2) by (cases y) (auto dest: space_not_digit)
  have 5: "re_match (Plus Space # Rep Digit 4 4 # rs) (w2 @ y @ rest) =
           Some (w2 # y # cs, fin)"
    by (rule re_match_step [OF match_plus_first [OF w2(1) cw(2) s5] 6])
  have s4: "w2 @ y @ rest = [] \<or> \<not> in_class Alpha (hd (w2 @ y @ rest))"
    using w2 by (cases w2) (auto dest: space_not_alpha)
  have 4: "re_match (Plus Alpha # Plus Space # Rep Digit 4 4 # rs) (mn @ w2 @ y @ rest) =
           Some (mn # w2 # y # cs, fin)"
    by (rule re_match_step [OF match_plus_first [OF mn(1) ca s4] 5])
  have s3: "mn @ w2 @ y @ rest = [] \<or> \<not> in_class Space (hd (mn @ w2 @ y @ rest))"
    using mn by (cases mn) (auto dest: space_not_alpha)
  have 3: "re_match (Plus Space # Plus Alpha # Plus Space # Rep Digit 4 4 # rs)
             (w1 @ mn @ w2 @ y @ rest) = Some (w1 # mn # w2 # y # cs, fin)"
    by (rule re_match_step [OF match_plus_first [OF w1(1) cw(1) s3] 4])
  have 2: "re_match (ordinal_suffix # Plus Space # Plus Alpha # Plus Space # Rep Digit 4 4 # rs)
             (suf @ w1 @ mn @ w2 @ y @ rest) = Some (suf # w1 # mn # w2 # y # cs, fin)"
    by (rule re_match_step [OF match_suffix [OF suf] 3])
  have s1: "suf @ w1 @ mn @ w2 @ y @ rest = [] \<or>
            \<not> in_class Digit (hd (suf @ w1 @ mn @ w2 @ y @ rest))"
    using suf by (auto simp add: is_digit_def)
  show ?thesis
    by (rule re_match_step [OF match_rep_first [OF dy(1,2) cd(1) s1] 2])
qed

section \<open>Matches inside a longer text\<close>

lemma startswith_take: "startswith s l \<longleftrightarrow> length l \<le> length s \<and> take (length l) s = l"
  by (induction s l rule: startswith.induct) auto


lemma drop_extend: "startswith s l \<Longrightarrow> drop (length l) (s @ t) = drop (length l) s @ t"
  by (simp add: startswith_take)

lemma length_takeWhile_extend:
  "length (takeWhile P a) \<le> length (takeWhile P (a @ b))"
  by (induction a) simp_all

lemma match_rep_extend:
  assumes "j \<in> set [m..<Suc (length (takeWhile P (take n s)))]"
  shows "j \<in> set [m..<Suc (length (takeWhile P (take n (s @ t))))] \<and>
         take j (s @ t) = take j s \<and> drop j (s @ t) = drop j s @ t"
proof -
  have "length (takeWhile P (take n s)) \<le> length (takeWhile P (take n s @ take (n - length s) t))"
    by (rule length_takeWhile_extend)
  then have a: "length (takeWhile P (take n s)) \<le> length (takeWhile P (take n (s @ t)))"
    by simp
  have "length (takeWhile P (take n s)) \<le> length (take n s)"
    by (rule length_takeWhile_le)
  then have b: "length (takeWhile P (take n s)) \<le> length s"
    by simp
  from assms a b show ?thesis by auto
qed

lemma match_plus_extend:
  assumes "j \<in> set [m..<Suc (length (takeWhile P s))]"
  shows "j \<in> set [m..<Suc (length (takeWhile P (s @ t)))] \<and>
         take j (s @ t) = take j s \<and> drop j (s @ t) = drop j s @ t"
proof -
  have a: "length (takeWhile P s) \<le> length (takeWhile P (s @ t))"
    by (rule length_takeWhile_extend)
  have b: "length (takeWhile P s) \<le> length s"
    by (rule length_takeWhile_le)
  from assms a b show ?thesis by auto
qed

lemma in_splits:
  "j \<in> set js \<Longrightarrow> take j u = a \<Longrightarrow> drop j u = b \<Longrightarrow>
   (a, b) \<in> set (map (\<lambda>j. (take j u, drop j u)) (rev js))"
  by auto

lemma match_item_extend:
  "(c, rest) \<in> set (match_item r s) \<Longrightarrow> (c, rest @ t) \<in> set (match_item r (s @ t))"
proof (cases r)
  case (Lit l)
  assume "(c, rest) \<in> set (match_item r s)"
  with Lit show ?thesis
    by (auto simp add: startswith_take split: if_splits)
next
  case (Alt ls)
  assume "(c, rest) \<in> set (match_item r s)"
  with Alt show ?thesis
    by (auto simp add: startswith_take split: if_splits)
next
  case (Rep x m n)
  assume "(c, rest) \<in> set (match_item r s)"
  with Rep obtain j where j: "j \<in> set [m..<Suc (length (takeWhile (in_class x) (take n s)))]"
    and c: "c = take j s" "rest = drop j s"
    by (auto simp add: Let_def)
  note e = match_rep_extend [OF j, of t]
  show ?thesis
    unfolding Rep c match_item.simps Let_def
    by (rule in_splits [OF e [THEN conjunct1] e [THEN conjunct2, THEN conjunct1]
          e [THEN conjunct2, THEN conjunct2]])
next
  case (Plus x)
  assume "(c, rest) \<in> set (match_item r s)"
  with Plus obtain j where j: "j \<in> set [1..<Suc (length (takeWhile (in_class x) s))]"
    and c: "c = take j s" "rest = drop j s"
    by (auto simp add: Let_def)
  note e = match_plus_extend [OF j, of t]
  show ?thesis
    unfolding Plus c match_item.simps Let_def
    by (rule in_splits [OF e [THEN conjunct1] e [THEN conjunct2, THEN conjunct1]
          e [THEN conjunct2, THEN conjunct2]])
qed

lemma match_seq_extend:
  "(gs, fin) \<in> set (match_seq p s) \<Longrightarrow> (gs, fin @ t) \<in> set (match_seq p (s @ t))"
proof (induction p arbitrary: s gs)
  case Nil
  then show ?case by simp
next
  case (Cons r rs)
  from Cons.prems obtain c rest cs where m: "(c, rest) \<in> set (match_item r s)"
    and n: "(cs, fin) \<in> set (match_seq rs rest)" and g: "gs = c # cs"
    by auto
  have m': "(c, rest @ t) \<in> set (match_item r (s @ t))"
    using m by (rule match_item_extend)
  have n': "(cs, fin @ t) \<in> set (match_seq rs (rest @ t))"
    using n by (rule Cons.IH)
  from m' n' g show ?case by force
qed

lemma re_match_extend: "re_match p s \<noteq> None \<Longrightarrow> re_match p (s @ t) \<noteq> None"
proof -
  assume "re_match p s \<noteq> None"
  then obtain gs fin where "(gs, fin) \<in> set (match_seq p s)"
    by (cases "match_seq p s") (auto simp add: re_match_def)
  then have "(gs, fin @ t) \<in> set (match_seq p (s @ t))"
    by (rule match_seq_extend)
  then show ?thesis
    by (cases "match_seq p (s @ t)") (auto simp add: re_match_def)
qed

lemma re_search_here: "re_match p s \<noteq> None \<Longrightarrow> re_search p s \<noteq> None"
  by (cases s) (auto split: option.splits)

lemma re_search_later: "re_search p s \<noteq> None \<Longrightarrow> re_search p (pre @ s) \<noteq> None"
  by (induction pre) (auto split: option.splits)

lemma re_search_inside:
  assumes "re_match p s \<noteq> None"
  shows "re_search p (pre @ s @ post) \<noteq> None"
  by (rule re_search_later [OF re_search_here [OF re_match_extend [OF assms]]])

text \<open>Where the pattern is found, the text written by \<open>re.sub\<close> holds the replacement.\<close>

lemma sub_scan_holds_repl:
  "re_search p s \<noteq> None \<Longrightarrow> \<exists>pre post. sub_scan 0 p repl s = pre @ repl @ post"
proof (induction s)
  case Nil
  then have "sub_scan 0 p repl [] = [] @ repl @ []"
    by (auto split: option.splits)
  then show ?case by blast
next
  case (Cons c cs)
  show ?case
  proof (cases "re_match p (c # cs)")
    case None
    with Cons.prems have "re_search p cs \<noteq> None"
      by (auto split: option.splits)
    then obtain pre post where "sub_scan 0 p repl cs = pre @ repl @ post"
      using Cons.IH by blast
    with None have "sub_scan 0 p repl (c # cs) = (c # pre) @ repl @ post"
      by simp
    then show ?thesis by blast
  next
    case (Some m)
    obtain gs r where m: "m = (gs, r)" by (cases m)
    show ?thesis
    proof (cases "length (concat gs) = 0")
      case True
      with Some m have "sub_scan 0 p repl (c # cs) = [] @ repl @ (c # sub_scan 0 p repl cs)"
        by (auto simp add: Let_def)
      then show ?thesis by blast
    next
      case False
      with Some m have "sub_scan 0 p repl (c # cs) =
          [] @ repl @ sub_scan (length (concat gs) - 1) p repl cs"
        by (auto simp add: Let_def)
      then show ?thesis by blast
    qed
  qed
qed

lemma rewritten_text_matches:
  assumes "re_match p repl \<noteq> None" and "re_search p text \<noteq> None"
  shows "re_search p (re_sub p repl text) \<noteq> None"
proof -
  from assms(2) obtain pre post where "sub_scan 0 p repl text = pre @ repl @ post"
    using sub_scan_holds_repl by blast
  then show ?thesis
    unfolding re_sub_def using re_search_inside [OF assms(1)] by simp
qed

section \<open>The replacement strings\<close>

lemma month_name_alpha:
  assumes "1 \<le> m" and "m \<le> 12"
  shows "month_name m \<noteq> [] \<and> (\<forall>c\<in>set (month_name m). is_alpha c)"
proof -
  from assms have "m = 1 \<or> m = 2 \<or> m = 3 \<or> m = 4 \<or> m = 5 \<or> m = 6 \<or> m = 7 \<or> m = 8 \<or>
      m = 9 \<or> m = 10 \<or> m = 11 \<or> m = 12"
    by arith
  then show ?thesis
    by (elim disjE) (simp_all add: month_name_def month_names_def is_alpha_def)
qed

lemma str_small_length:
  assumes "0 \<le> y" and "y < 100"
  shows "1 \<le> length (str y) \<and> length (str y) \<le> 2"
proof (cases "nat y < 10")
  case True
  then show ?thesis using assms(1) by (simp add: str_def str_nat_small)
next
  case False
  with assms have "10 \<le> nat y" "nat y div 10 < 10" by auto
  then show ?thesis using assms(1) by (simp add: str_def str_nat_big str_nat_small)
qed

lemma ordinal_shape: "\<exists>suf. suf \<in> set [''st'', ''nd'', ''rd'', ''th''] \<and> ordinal n = str n @ suf"
  by (simp add: ordinal_def Let_def)

lemma fmt_02d_shape:
  "0 \<le> m \<Longrightarrow> m < 100 \<Longrightarrow> length (fmt_02d m) = 2 \<and> (\<forall>c\<in>set (fmt_02d m). is_digit c)"
  by (simp add: fmt_02d_two digit_char_is_digit)

lemma service_period_text:
  assumes "valid_date d" and "\<not> (year d = 1 \<and> month d = 1)"
  shows "make_service_period d =
           Inr (''7th '' @ month_name (if month d = 1 then 12 else month d - 1) @ '' '' @
                str (if month d = 1 then year d - 1 else year d) @
                '' to 6th '' @ month_name (month d) @ '' '' @ str (year d))"
  unfolding make_service_period_def add_months_back [OF assms]
  by (simp add: ordinal_7 ordinal_6 strftime_B_Y_def)

lemma date1_repl_matches:
  assumes "valid_date d" and "1000 \<le> year d"
  shows "\<exists>gs. re_match date1_pattern (''Date: '' @ make_date_format1 d) = Some (gs, [])"
proof -
  from assms(1) have d: "0 \<le> day d" "day d < 100" "1 \<le> month d" "month d \<le> 12" "year d \<le> 9999"
    by (auto simp add: valid_date_def days_in_month_def split: if_splits)
  from ordinal_shape obtain suf where
    so: "suf \<in> set [''st'', ''nd'', ''rd'', ''th''] \<and> ordinal (day d) = str (day d) @ suf" ..
  note suf = so [THEN conjunct1] and o = so [THEN conjunct2]
  note dl = str_small_length [OF d(1,2)]
  have dd: "\<forall>c\<in>set (str (day d)). is_digit c"
    using d(1) by (auto intro: str_digits)
  note mn = month_name_alpha [OF d(3,4)]
  have y4: "length (str (year d)) = 4" using assms(2) d(5) by (rule str_length4)
  have y0: "0 \<le> year d" using assms(2) by simp
  have yd: "\<forall>c\<in>set (str (year d)). is_digit c"
    using y0 by (auto intro: str_digits)
  have b: "'' '' \<noteq> []" "\<forall>c\<in>set '' ''. is_space c" "\<forall>c\<in>set '' ''. in_class Space c"
    by (simp_all add: is_space_def)
  have 3: "re_match [Rep Digit 1 2, ordinal_suffix, Plus Space, Plus Alpha, Plus Space,
                     Rep Digit 4 4]
             (str (day d) @ suf @ '' '' @ month_name (month d) @ '' '' @ str (year d) @ []) =
           Some ([str (day d), suf, '' '', month_name (month d), '' '', str (year d)], [])"
    by (rule long_date_matches [OF dl [THEN conjunct1] dl [THEN conjunct2] dd suf b(1,2)
          mn [THEN conjunct1] mn [THEN conjunct2] b(1,2) y4 yd re_match_nil])
  have s: "str (day d) @ suf @ '' '' @ month_name (month d) @ '' '' @ str (year d) @ [] = [] \<or>
           \<not> in_class Space
               (hd (str (day d) @ suf @ '' '' @ month_name (month d) @ '' '' @ str (year d) @ []))"
    using dl dd by (cases "str (day d)") (auto dest: space_not_digit)
  have 2: "re_match [Plus Space, Rep Digit 1 2, ordinal_suffix, Plus Space, Plus Alpha,
                     Plus Space, Rep Digit 4 4]
             ('' '' @ str (day d) @ suf @ '' '' @ month_name (month d) @ '' '' @
              str (year d) @ []) =
           Some ([ '' '', str (day d), suf, '' '', month_name (month d), '' '', str (year d)], [])"
    by (rule re_match_step [OF match_plus_first [OF b(1,3) s] 3])
  have 1: "re_match date1_pattern
             (''Date:'' @ '' '' @ str (day d) @ suf @ '' '' @ month_name (month d) @ '' '' @
              str (year d) @ []) =
           Some ([''Date:'', '' '', str (day d), suf, '' '', month_name (month d), '' '',
                  str (year d)], [])"
    unfolding date1_pattern_def by (rule re_match_lit [OF 2])
  have e: "''Date: '' @ make_date_format1 d =
           ''Date:'' @ '' '' @ str (day d) @ suf @ '' '' @ month_name (month d) @ '' '' @
              str (year d) @ []"
    by (simp add: make_date_format1_def strftime_B_Y_def o)
  show ?thesis unfolding e by (rule exI, rule 1)
qed

lemma date2_repl_matches:
  assumes "valid_date d" and "1000 \<le> year d"
  shows "\<exists>gs. re_match date2_pattern (make_date_format2 d) = Some (gs, [])"
proof -
  from assms(1) have d: "0 \<le> day d" "day d < 100" "0 \<le> month d" "month d < 100"
    "year d \<le> 9999"
    by (auto simp add: valid_date_def days_in_month_def split: if_splits)
  note dl = str_small_length [OF d(1,2)]
  have dd: "\<forall>c\<in>set (str (day d)). in_class Digit c"
    using d(1) by (auto intro: str_digits)
  note mm = fmt_02d_shape [OF d(3,4)]
  have md: "\<forall>c\<in>set (fmt_02d (month d)). in_class Digit c"
    using mm by simp
  have y4: "length (str (year d)) = 4" using assms(2) d(5) by (rule str_length4)
  have y0: "0 \<le> year d" using assms(2) by simp
  have yd: "\<forall>c\<in>set (str (year d)). in_class Digit c"
    using y0 by (auto intro: str_digits)
  have 5: "re_match [Rep Digit 4 4] (str (year d) @ []) = Some ([str (year d)], [])"
    by (rule re_match_cons [OF match_rep_exact [OF y4 yd] re_match_nil])
  have 4: "re_match [Lit ''/'', Rep Digit 4 4] (''/'' @ str (year d) @ []) =
           Some ([''/'', str (year d)], [])"
    by (rule re_match_lit [OF 5])
  have 3: "re_match [Rep Digit 2 2, Lit ''/'', Rep Digit 4 4]
             (fmt_02d (month d) @ ''/'' @ str (year d) @ []) =
           Some ([fmt_02d (month d), ''/'', str (year d)], [])"
    by (rule re_match_cons [OF match_rep_exact [OF mm [THEN conjunct1] md] 4])
  have 2: "re_match [Lit ''/'', Rep Digit 2 2, Lit ''/'', Rep Digit 4 4]
             (''/'' @ fmt_02d (month d) @ ''/'' @ str (year d) @ []) =
           Some ([''/'', fmt_02d (month d), ''/'', str (year d)], [])"
    by (rule re_match_lit [OF 3])
  have s: "''/'' @ fmt_02d (month d) @ ''/'' @ str (year d) @ [] = [] \<or>
           \<not> in_class Digit (hd (''/'' @ fmt_02d (month d) @ ''/'' @ str (year d) @ []))"
    by (simp add: is_digit_def)
  have 1: "re_match date2_pattern
             (str (day d) @ ''/'' @ fmt_02d (month d) @ ''/'' @ str (year d) @ []) =
           Some ([str (day d), ''/'', fmt_02d (month d), ''/'', str (year d)], [])"
    unfolding date2_pattern_def
    by (rule re_match_step [OF match_rep_first [OF dl [THEN conjunct1] dl [THEN conjunct2] dd s] 2])
  have e: "make_date_format2 d =
           str (day d) @ ''/'' @ fmt_02d (month d) @ ''/'' @ str (year d) @ []"
    by (simp add: make_date_format2_def)
  show ?thesis unfolding e by (rule exI, rule 1)
qed

lemma long_dates_match:
  assumes m1: "m1 \<noteq> []" "\<forall>c\<in>set m1. is_alpha c"
    and y1: "length y1 = 4" "\<forall>c\<in>set y1. is_digit c"
    and m2: "m2 \<noteq> []" "\<forall>c\<in>set m2. is_alpha c"
    and y2: "length y2 = 4" "\<forall>c\<in>set y2. is_digit c"
  shows "\<exists>gs. re_match service_period_pattern
                 (''7th '' @ m1 @ '' '' @ y1 @ '' to 6th '' @ m2 @ '' '' @ y2) = Some (gs, [])"
proof -
  have b: "'' '' \<noteq> []" "\<forall>c\<in>set '' ''. is_space c" "\<forall>c\<in>set '' ''. in_class Space c"
    by (simp_all add: is_space_def)
  have th: "''th'' \<in> set [''st'', ''nd'', ''rd'', ''th'']" by simp
  have d6: "1 \<le> length ''6''" "length ''6'' \<le> 2" "\<forall>c\<in>set ''6''. is_digit c"
    and d7: "1 \<le> length ''7''" "length ''7'' \<le> 2" "\<forall>c\<in>set ''7''. is_digit c"
    by (simp_all add: is_digit_def)
  have 4: "re_match [Rep Digit 1 2, ordinal_suffix, Plus Space, Plus Alpha, Plus Space,
                     Rep Digit 4 4]
             (''6'' @ ''th'' @ '' '' @ m2 @ '' '' @ y2 @ []) =
           Some ([''6'', ''th'', '' '', m2, '' '', y2], [])"
    by (rule long_date_matches [OF d6 th b(1,2) m2 b(1,2) y2 re_match_nil])
  have s3: "''6'' @ ''th'' @ '' '' @ m2 @ '' '' @ y2 @ [] = [] \<or>
            \<not> in_class Space (hd (''6'' @ ''th'' @ '' '' @ m2 @ '' '' @ y2 @ []))"
    by (simp add: is_space_def)
  have 3: "re_match [Plus Space, Rep Digit 1 2, ordinal_suffix, Plus Space, Plus Alpha,
                     Plus Space, Rep Digit 4 4]
             ('' '' @ ''6'' @ ''th'' @ '' '' @ m2 @ '' '' @ y2 @ []) =
           Some (['' '', ''6'', ''th'', '' '', m2, '' '', y2], [])"
    by (rule re_match_step [OF match_plus_first [OF b(1,3) s3] 4])
  have 2: "re_match [Lit ''to'', Plus Space, Rep Digit 1 2, ordinal_suffix, Plus Space,
                     Plus Alpha, Plus Space, Rep Digit 4 4]
             (''to'' @ '' '' @ ''6'' @ ''th'' @ '' '' @ m2 @ '' '' @ y2 @ []) =
           Some ([''to'', '' '', ''6'', ''th'', '' '', m2, '' '', y2], [])"
    by (rule re_match_lit [OF 3])
  have s1: "''to'' @ '' '' @ ''6'' @ ''th'' @ '' '' @ m2 @ '' '' @ y2 @ [] = [] \<or>
            \<not> in_class Space (hd (''to'' @ '' '' @ ''6'' @ ''th'' @ '' '' @ m2 @ '' '' @ y2 @ []))"
    by (simp add: is_space_def)
  have 1: "re_match [Plus Space, Lit ''to'', Plus Space, Rep Digit 1 2, ordinal_suffix,
                     Plus Space, Plus Alpha, Plus Space, Rep Digit 4 4]
             ('' '' @ ''to'' @ '' '' @ ''6'' @ ''th'' @ '' '' @ m2 @ '' '' @ y2 @ []) =
           Some (['' '', ''to'', '' '', ''6'', ''th'', '' '', m2, '' '', y2], [])"
    by (rule re_match_step [OF match_plus_first [OF b(1,3) s1] 2])
  have 0: "re_match service_period_pattern
             (''7'' @ ''th'' @ '' '' @ m1 @ '' '' @ y1 @
              '' '' @ ''to'' @ '' '' @ ''6'' @ ''th'' @ '' '' @ m2 @ '' '' @ y2 @ []) =
           Some ([''7'', ''th'', '' '', m1, '' '', y1,
                  '' '', ''to'', '' '', ''6'', ''th'', '' '', m2, '' '', y2], [])"
    unfolding service_period_pattern_def
    by (rule long_date_matches [OF d7 th b(1,2) m1 b(1,2) y1 1])
  have e: "''7th '' @ m1 @ '' '' @ y1 @ '' to 6th '' @ m2 @ '' '' @ y2 =
           ''7'' @ ''th'' @ '' '' @ m1 @ '' '' @ y1 @
              '' '' @ ''to'' @ '' '' @ ''6'' @ ''th'' @ '' '' @ m2 @ '' '' @ y2 @ []"
    by simp
  show ?thesis unfolding e by (rule exI, rule 0)
qed

lemma service_repl_matches:
  assumes "valid_date d" and "1000 \<le> (if month d = 1 then year d - 1 else year d)"
  shows "\<exists>p gs. make_service_period d = Inr p \<and>
                 re_match service_period_pattern p = Some (gs, [])"
proof -
  let ?pm = "if month d = 1 then 12 else month d - 1"
  let ?py = "if month d = 1 then year d - 1 else year d"
  from assms have d: "1 \<le> month d" "month d \<le> 12" "year d \<le> 9999" "1000 \<le> year d"
    "1 \<le> ?pm" "?pm \<le> 12" "?py \<le> 9999" "0 \<le> ?py" "0 \<le> year d"
    by (auto simp add: valid_date_def split: if_splits)
  from d(4) have n: "\<not> (year d = 1 \<and> month d = 1)" by simp
  note m1 = month_name_alpha [OF d(5,6)]
  note m2 = month_name_alpha [OF d(1,2)]
  have y1: "length (str ?py) = 4" using assms(2) d(7) by (rule str_length4)
  have y1d: "\<forall>c\<in>set (str ?py). is_digit c" using d(8) by (auto intro: str_digits)
  have y2: "length (str (year d)) = 4" using d(4,3) by (rule str_length4)
  have y2d: "\<forall>c\<in>set (str (year d)). is_digit c" using d(9) by (auto intro: str_digits)
  from long_dates_match [OF m1 [THEN conjunct1] m1 [THEN conjunct2] y1 y1d
        m2 [THEN conjunct1] m2 [THEN conjunct2] y2 y2d]
  obtain gs where g: "re_match service_period_pattern
      (''7th '' @ month_name ?pm @ '' '' @ str ?py @ '' to 6th '' @ month_name (month d) @
       '' '' @ str (year d)) = Some (gs, [])" ..
  show ?thesis
    by (intro exI conjI) (rule service_period_text [OF assms(1) n], rule g)
qed

section \<open>The replacement strings and their patterns\<close>

lemma some_not_none: "\<exists>gs. x = Some (gs, r) \<Longrightarrow> x \<noteq> None"
  by auto

lemma invoice_repl_matches:
  assumes "valid_date d" and "1000 \<le> (if 4 \<le> month d then year d else year d - 1)"
    and "1000 \<le> r" and "r \<le> 9999"
  shows "\<exists>gs. re_match invoice_number_pattern (make_invoice_number r d) = Some (gs, [])"
proof -
  let ?y0 = "if 4 \<le> month d then year d else year d - 1"
  let ?y1 = "if 4 \<le> month d then year d + 1 else year d"
  from assms(1) have y: "year d \<le> 9999" by (simp add: valid_date_def)
  have r4: "length (str r) = 4" using assms(3,4) by (rule str_length4)
  have r0: "0 \<le> r" using assms(3) by simp
  have y0: "0 \<le> ?y0" "0 \<le> ?y1" using assms(2) by auto
  have rd: "\<forall>c\<in>set (str r). is_digit c" using r0 by (auto intro: str_digits)
  have y4: "length (str ?y0) = 4" using assms(2) y by (intro str_length4) auto
  have yd: "\<forall>c\<in>set (str ?y0). is_digit c" using y0(1) by (auto intro: str_digits)
  have l2: "length (last2 (str ?y1)) = 2" using assms(2) by (intro last2_str_length) auto
  have ld: "\<forall>c\<in>set (last2 (str ?y1)). is_digit c"
    using y0(2) by (auto intro: last2_str_digits)
  have g: "get_financial_year d = str ?y0 @ ''-'' @ last2 (str ?y1)"
    by (simp add: get_financial_year_def)
  have n: "make_invoice_number r d = ''IN'' @ str r @ ''/'' @ str ?y0 @ ''-'' @ last2 (str ?y1)"
    unfolding make_invoice_number_def g ..
  show ?thesis
    unfolding n by (rule exI, rule invoice_number_matches [OF r4 rd y4 yd l2 ld])
qed

text \<open>
  C10 at the financial year 999. With a prior invoice dated February 1000 the invoice date
  is March 1000 and the invoice number \<open>IN4711/999-00\<close>. The rewriter writes it into the
  cell of the template and sets the flag of the field, and the text it has written has no
  region that the pattern of the invoice number matches.
\<close>

theorem run_1000_invoice_number:
  "determine_invoice_date run_1000 = Inr \<lparr>year = 1000, month = 3, day = 1\<rparr> \<and>
   make_invoice_number (randint run_1000) \<lparr>year = 1000, month = 3, day = 1\<rparr> =
     ''IN4711/999-00'' \<and>
   update_invoice_number
     \<lparr>date_format1 = ''1st March 1000'', date_format2 = ''1/03/1000'',
      invoice_number = ''IN4711/999-00'',
      service_period = ''7th February 1000 to 6th March 1000''\<rparr>
     no_flags ''Invoice No: IN1234/2024-25'' =
     (''Invoice No: IN4711/999-00'', no_flags\<lparr>invoice_number_updated := True\<rparr>) \<and>
   re_search invoice_number_pattern ''Invoice No: IN4711/999-00'' = None"
proof -
  have a: "determine_invoice_date run_1000 = Inr \<lparr>year = 1000, month = 3, day = 1\<rparr>"
    by code_simp
  have b: "make_invoice_number (randint run_1000) \<lparr>year = 1000, month = 3, day = 1\<rparr> =
     ''IN4711/999-00''"
    by (simp add: run_1000_def make_invoice_number_def get_financial_year_def str_eval)
  have c: "update_invoice_number
     \<lparr>date_format1 = ''1st March 1000'', date_format2 = ''1/03/1000'',
      invoice_number = ''IN4711/999-00'',
      service_period = ''7th February 1000 to 6th March 1000''\<rparr>
     no_flags ''Invoice No: IN1234/2024-25'' =
     (''Invoice No: IN4711/999-00'', no_flags\<lparr>invoice_number_updated := True\<rparr>)"
    by code_simp
  have d: "re_search invoice_number_pattern ''Invoice No: IN4711/999-00'' = None"
    by code_simp
  show ?thesis by (rule conjI [OF a conjI [OF b conjI [OF c d]]])
qed

text \<open>
  C10. For every invoice date whose financial year starts in the year 1000 or later and
  every draw between 1000 and 9999, each of the four replacement strings is matched as a
  whole by the pattern of its own field, and a text in which the pattern is found still has
  a region that the pattern matches after the replacement has been written into it.
\<close>

theorem replacements_match:
  assumes "valid_date d" and "1000 \<le> (if 4 \<le> month d then year d else year d - 1)"
    and "1000 \<le> r" and "r \<le> 9999"
  shows "(\<exists>gs. re_match date1_pattern (''Date: '' @ make_date_format1 d) = Some (gs, [])) \<and>
         (\<exists>gs. re_match date2_pattern (make_date_format2 d) = Some (gs, [])) \<and>
         (\<exists>gs. re_match invoice_number_pattern (make_invoice_number r d) = Some (gs, [])) \<and>
         (\<exists>p gs. make_service_period d = Inr p \<and>
                  re_match service_period_pattern p = Some (gs, [])) \<and>
         (\<forall>s. re_search date1_pattern s \<noteq> None \<longrightarrow>
              re_search date1_pattern
                (re_sub date1_pattern (''Date: '' @ make_date_format1 d) s) \<noteq> None) \<and>
         (\<forall>s. re_search date2_pattern s \<noteq> None \<longrightarrow>
              re_search date2_pattern (re_sub date2_pattern (make_date_format2 d) s) \<noteq> None) \<and>
         (\<forall>s. re_search invoice_number_pattern s \<noteq> None \<longrightarrow>
              re_search invoice_number_pattern
                (re_sub invoice_number_pattern (make_invoice_number r d) s) \<noteq> None) \<and>
         (\<forall>s p. make_service_period d = Inr p \<longrightarrow>
              re_search service_period_pattern s \<noteq> None \<longrightarrow>
              re_search service_period_pattern (re_sub service_period_pattern p s) \<noteq> None)"
proof -
  from assms(2) have y: "1000 \<le> year d" "1000 \<le> (if month d = 1 then year d - 1 else year d)"
    by (auto split: if_splits)
  have a1: "\<exists>gs. re_match date1_pattern (''Date: '' @ make_date_format1 d) = Some (gs, [])"
    using assms(1) y(1) by (rule date1_repl_matches)
  have a2: "\<exists>gs. re_match date2_pattern (make_date_format2 d) = Some (gs, [])"
    using assms(1) y(1) by (rule date2_repl_matches)
  have a3: "\<exists>gs. re_match invoice_number_pattern (make_invoice_number r d) = Some (gs, [])"
    using assms by (rule invoice_repl_matches)
  have a4: "\<exists>p gs. make_service_period d = Inr p \<and>
                  re_match service_period_pattern p = Some (gs, [])"
    using assms(1) y(2) by (rule service_repl_matches)
  have b1: "\<forall>s. re_search date1_pattern s \<noteq> None \<longrightarrow>
              re_search date1_pattern
                (re_sub date1_pattern (''Date: '' @ make_date_format1 d) s) \<noteq> None"
    by (intro allI impI) (rule rewritten_text_matches [OF some_not_none [OF a1]])
  have b2: "\<forall>s. re_search date2_pattern s \<noteq> None \<longrightarrow>
              re_search date2_pattern (re_sub date2_pattern (make_date_format2 d) s) \<noteq> None"
    by (intro allI impI) (rule rewritten_text_matches [OF some_not_none [OF a2]])
  have b3: "\<forall>s. re_search invoice_number_pattern s \<noteq> None \<longrightarrow>
              re_search invoice_number_pattern
                (re_sub invoice_number_pattern (make_invoice_number r d) s) \<noteq> None"
    by (intro allI impI) (rule rewritten_text_matches [OF some_not_none [OF a3]])
  have b4: "\<forall>s p. make_service_period d = Inr p \<longrightarrow>
              re_search service_period_pattern s \<noteq> None \<longrightarrow>
              re_search service_period_pattern (re_sub service_period_pattern p s) \<noteq> None"
  proof (intro allI impI)
    fix s p
    assume p: "make_service_period d = Inr p"
      and s: "re_search service_period_pattern s \<noteq> None"
    from a4 obtain p0 where
      p0: "\<exists>gs. make_service_period d = Inr p0 \<and>
                re_match service_period_pattern p0 = Some (gs, [])" ..
    then obtain gs where
      g: "make_service_period d = Inr p0 \<and> re_match service_period_pattern p0 = Some (gs, [])" ..
    from g p have "p0 = p" by simp
    with g have "re_match service_period_pattern p \<noteq> None" by simp
    then show "re_search service_period_pattern (re_sub service_period_pattern p s) \<noteq> None"
      using s by (rule rewritten_text_matches)
  qed
  show ?thesis
    by (rule conjI [OF a1 conjI [OF a2 conjI [OF a3 conjI [OF a4 conjI [OF b1 conjI [OF b2
          conjI [OF b3 b4]]]]]]])
qed

theorem replacements_match_witness:
  "valid_date \<lparr>year = 2025, month = 3, day = 1\<rparr> \<and>
   (\<exists>gs. re_match date1_pattern ''Date: 1st March 2025'' = Some (gs, [])) \<and>
   (\<exists>gs. re_match date2_pattern ''1/03/2025'' = Some (gs, []))"
proof -
  let ?d = "\<lparr>year = 2025, month = 3, day = 1\<rparr>"
  have v: "valid_date ?d"
    by (simp add: valid_date_def days_in_month_def)
  have h: "1000 \<le> (if 4 \<le> month ?d then year ?d else year ?d - 1)"
    by simp
  have r: "(1000::int) \<le> 4711" "(4711::int) \<le> 9999" by simp_all
  note t = replacements_match [OF v h r]
  have f1: "''Date: '' @ make_date_format1 ?d = ''Date: 1st March 2025''"
    by (simp add: make_date_format1_def ordinal_1 strftime_B_Y_def month_name_def
        month_names_def str_eval)
  have f2: "make_date_format2 ?d = ''1/03/2025''"
    by (simp add: make_date_format2_def str_eval)
  have a: "\<exists>gs. re_match date1_pattern ''Date: 1st March 2025'' = Some (gs, [])"
    using t [THEN conjunct1] unfolding f1 .
  have b: "\<exists>gs. re_match date2_pattern ''1/03/2025'' = Some (gs, [])"
    using t [THEN conjunct2, THEN conjunct1] unfolding f2 .
  show ?thesis by (rule conjI [OF v conjI [OF a b]])
qed

section \<open>One paragraph for every field\<close>


lemma substitute_flag: "snd (substitute p repl s) \<longleftrightarrow> fst (substitute p repl s) \<noteq> s"
  by (auto simp add: substitute_def Let_def split: option.splits)










section \<open>Numerals read back\<close>







lemma lower_append: "lower (a @ b) = lower a @ lower b"
  by (simp add: lower_def)

section \<open>Parsing the first day of a month\<close>








section \<open>The date of the prior invoice\<close>











section \<open>The month after the prior invoice\<close>






end
